theory Spec2Isabelle
  imports Main
begin

section \<open>Strings\<close>

text \<open>
  A Python \<open>str\<close> is a sequence of Unicode code points, and \<open>len\<close> counts code points.
  A string is therefore a list of code points; ASCII literals are written through
  \<open>ustr\<close>.
\<close>

type_synonym ustring = "nat list"

definition ustr :: "string \<Rightarrow> ustring" where
  "ustr s = map of_char s"

text \<open>\<open>s.endswith(suffix)\<close>.\<close>

definition endswith :: "ustring \<Rightarrow> ustring \<Rightarrow> bool" where
  "endswith s suf = (length suf \<le> length s \<and> drop (length s - length suf) s = suf)"

text \<open>\<open>sep.join(words)\<close>.\<close>

fun join :: "ustring \<Rightarrow> ustring list \<Rightarrow> ustring" where
  "join sep [] = []"
| "join sep [w] = w"
| "join sep (w # ws) = w @ sep @ join sep ws"

section \<open>The libraries and the operating system\<close>

text \<open>
  The program calls \<open>jieba\<close>, \<open>fitz\<close>, \<open>docx\<close>, \<open>os\<close> and the Unicode tables behind
  \<open>re\<close> and \<open>str.strip\<close>. None of them is code of this repository, so they are parameters:
  \<^item> \<open>uni_*\<close>: the predicates of the Unicode database on a code point
    (\<open>str.isalpha\<close>, \<open>str.isdecimal\<close>, \<open>str.isdigit\<close>, \<open>str.isnumeric\<close>, \<open>str.isspace\<close>);
  \<^item> \<open>jieba_cut text\<close>: the tokens \<open>jieba.cut\<close> yields, in order;
  \<^item> \<open>jieba_extract_tags text topK\<close>: the tags of \<open>jieba.analyse.extract_tags\<close>;
  \<^item> \<open>fitz_open path\<close>: \<open>None\<close> when \<open>fitz.open\<close> raises, else the pages of the
    document, each page being the text \<open>get_text\<close> returns, or a page on which
    \<open>load_page\<close> raises, or a page on which \<open>get_text\<close> raises;
  \<^item> \<open>docx_Document path\<close>: \<open>None\<close> when \<open>Document\<close> raises, else the texts of the
    paragraphs;
  \<^item> \<open>os_walk top\<close>: the triples \<open>(root, dirs, files)\<close> that \<open>os.walk\<close> yields
    (none when the directory does not exist: \<open>os.walk\<close> ignores the error);
  \<^item> \<open>os_path_join\<close>: \<open>os.path.join\<close>;
  \<^item> \<open>open_read path\<close>: the lines read from a text file, \<open>None\<close> when opening or
    decoding raises.
\<close>

datatype pdf_page = Page ustring | LoadPageError | GetTextError

record env =
  uni_isalpha :: "nat \<Rightarrow> bool"
  uni_isdecimal :: "nat \<Rightarrow> bool"
  uni_isdigit :: "nat \<Rightarrow> bool"
  uni_isnumeric :: "nat \<Rightarrow> bool"
  uni_isspace :: "nat \<Rightarrow> bool"
  jieba_cut :: "ustring \<Rightarrow> ustring list"
  jieba_extract_tags :: "ustring \<Rightarrow> nat \<Rightarrow> ustring list"
  fitz_open :: "ustring \<Rightarrow> pdf_page list option"
  docx_Document :: "ustring \<Rightarrow> ustring list option"
  os_walk :: "ustring \<Rightarrow> (ustring \<times> ustring list \<times> ustring list) list"
  os_path_join :: "ustring \<Rightarrow> ustring \<Rightarrow> ustring"
  open_read :: "ustring \<Rightarrow> ustring list option"

section \<open>Regular expressions and \<open>strip\<close>\<close>

text \<open>
  On a \<open>str\<close> pattern \<open>\d\<close> is a Unicode decimal digit, \<open>\w\<close> is an alphanumeric
  character (as \<open>str.isalnum\<close>: alphabetic, decimal, digit or numeric) or the underscore,
  and \<open>\s\<close> is Unicode whitespace.
\<close>

definition re_digit :: "env \<Rightarrow> nat \<Rightarrow> bool" where
  "re_digit E c = uni_isdecimal E c"

definition re_word :: "env \<Rightarrow> nat \<Rightarrow> bool" where
  "re_word E c =
     (uni_isalpha E c \<or> uni_isdecimal E c \<or> uni_isdigit E c \<or> uni_isnumeric E c \<or> c = 95)"

definition re_space :: "env \<Rightarrow> nat \<Rightarrow> bool" where
  "re_space E c = uni_isspace E c"

text \<open>\<open>number_pattern = r'\d'\<close> and \<open>special_char_pattern = r'[^\w\s]'\<close>.\<close>

definition number_pattern :: "env \<Rightarrow> nat \<Rightarrow> bool" where
  "number_pattern E c = re_digit E c"

definition special_char_pattern :: "env \<Rightarrow> nat \<Rightarrow> bool" where
  "special_char_pattern E c = (\<not> (re_word E c \<or> re_space E c))"

text \<open>The character class of \<open>chinese_char_pattern\<close>: the code points U+4E00 to U+9FFF.\<close>

definition chinese_char :: "nat \<Rightarrow> bool" where
  "chinese_char c = (0x4e00 \<le> c \<and> c \<le> 0x9fff)"

text \<open>
  The members of the class of \<open>punctuation_pattern\<close>, in the order of the source (the
  backslashes of the raw string escape the character after them).
\<close>

definition punctuation_chars :: "nat list" where
  "punctuation_chars =
     [0x3002, 0xff0c, 0x3001, 0xff1b, 0xff1a, 0xff1f, 0xff01, 0x300c, 0x300d, 0x300e, 0x300f,
      0xff08, 0xff09, 0x3010, 0x3011, 0x300a, 0x300b, 0x3008, 0x3009, 0x2014, 0x2014, 0x2026,
      0x2026, 0x2014, 0xb7, 0xff5e, 0x201c, 0x201d, 0x2018, 0x2019,
      46, 44, 59, 58, 63, 33, 34, 39, 40, 41, 91, 93, 123, 125, 45, 95, 61, 43, 38, 64, 35,
      36, 37, 42, 126, 47, 124, 92, 60, 62, 94, 96]"

definition punctuation_pattern :: "nat \<Rightarrow> bool" where
  "punctuation_pattern c = (c \<in> set punctuation_chars)"

text \<open>
  \<open>re.findall(p, text)\<close> for a pattern \<open>p\<close> of one character class: the scan goes left to
  right and every matching character is a match of its own.
\<close>

fun findall :: "(nat \<Rightarrow> bool) \<Rightarrow> ustring \<Rightarrow> ustring list" where
  "findall p [] = []"
| "findall p (c # cs) = (if p c then [c] # findall p cs else findall p cs)"

text \<open>
  \<open>pattern.fullmatch(word)\<close> for a pattern \<open>[class]+\<close>: one character of the class, then
  as many as follow; the whole word must be consumed.
\<close>

fun fullmatch_plus :: "(nat \<Rightarrow> bool) \<Rightarrow> ustring \<Rightarrow> bool" where
  "fullmatch_plus p [] = False"
| "fullmatch_plus p [c] = p c"
| "fullmatch_plus p (c # cs) = (p c \<and> fullmatch_plus p cs)"

text \<open>\<open>re.sub(p, ' ', text)\<close> for a pattern \<open>p\<close> of one character class.\<close>

fun sub_space :: "(nat \<Rightarrow> bool) \<Rightarrow> ustring \<Rightarrow> ustring" where
  "sub_space p [] = []"
| "sub_space p (c # cs) = (if p c then 32 else c) # sub_space p cs"

text \<open>\<open>s.strip()\<close>: leading and trailing whitespace removed.\<close>

definition strip :: "env \<Rightarrow> ustring \<Rightarrow> ustring" where
  "strip E s = rev (dropWhile (uni_isspace E) (rev (dropWhile (uni_isspace E) s)))"

section \<open>Counting: \<open>collections.Counter\<close> and \<open>most_common\<close>\<close>

text \<open>
  A \<open>Counter\<close> is a dictionary, and a dictionary keeps its keys in insertion order, which
  \<open>most_common\<close> relies on for ties. It is an association list in insertion order.
  \<open>Counter(words)\<close> runs \<open>mapping[elem] = mapping.get(elem, 0) + 1\<close> over the words.
\<close>

type_synonym 'a counter = "('a \<times> int) list"

fun counter_add :: "'a counter \<Rightarrow> 'a \<Rightarrow> 'a counter" where
  "counter_add [] w = [(w, 1)]"
| "counter_add ((v, n) # c) w =
     (if v = w then (v, n + 1) # c else (v, n) # counter_add c w)"

definition Counter :: "'a list \<Rightarrow> 'a counter" where
  "Counter ws = foldl counter_add [] ws"

text \<open>\<open>FileAnalyzer._word_frequency\<close>.\<close>

definition word_frequency :: "'a list \<Rightarrow> 'a counter" where
  "word_frequency ws = Counter ws"

text \<open>
  \<open>Counter.most_common(n)\<close> for an integer \<open>n\<close> is
  \<open>heapq.nlargest(n, self.items(), key=itemgetter(1))\<close>: the items sorted by descending
  count, the sort being stable, cut after \<open>n\<close> items; no item when \<open>n \<le> 0\<close>.
\<close>

definition most_common :: "int \<Rightarrow> 'a counter \<Rightarrow> 'a counter" where
  "most_common n c = take (nat n) (sort_key (\<lambda>p. - snd p) c)"

text \<open>The position at which a word is first met in a list (the length, when it is not met).\<close>

definition first_seen :: "'a list \<Rightarrow> 'a \<Rightarrow> nat" where
  "first_seen ws w = length (takeWhile (\<lambda>x. x \<noteq> w) ws)"

section \<open>Errors and effects\<close>

text \<open>
  \<open>ValueError\<close> carries its message. \<open>LibraryError\<close> is any exception that a call into
  \<open>fitz\<close>, \<open>docx\<close> or \<open>open\<close> raises; the program catches none of them.
\<close>

datatype error = ValueError ustring | LibraryError

text \<open>
  What a run does outside the program, in order:
  \<^item> \<open>FitzOpen p\<close>: \<open>fitz.open(p)\<close> has returned a document, which is open from then on;
    \<open>FitzOpenError p\<close>: \<open>fitz.open(p)\<close> has raised;
  \<^item> \<open>LoadPage n\<close>, \<open>GetText n\<close>: the calls \<open>doc.load_page(n)\<close> and \<open>page.get_text()\<close>;
  \<^item> \<open>DocxDocument p\<close>: the call \<open>Document(p)\<close>;
  \<^item> \<open>Release p\<close>: the document opened from \<open>p\<close> is released. The source never calls
    \<open>close\<close> and has no \<open>with\<close> block for a document, so a release is always the work of
    the Python runtime, which finalises the document object when its last reference dies;
  \<^item> \<open>LogError\<close>, \<open>LogInfo\<close>: the records sent to the logger; \<open>Print\<close>: the call of
    \<open>print\<close>.
\<close>

datatype event =
    FitzOpen ustring
  | FitzOpenError ustring
  | LoadPage nat
  | GetText nat
  | DocxDocument ustring
  | Release ustring
  | LogError ustring
  | LogInfo ustring "ustring counter"
  | Print ustring int

text \<open>The events that open or read a document.\<close>

fun reads_document :: "event \<Rightarrow> bool" where
  "reads_document (FitzOpen p) = True"
| "reads_document (FitzOpenError p) = True"
| "reads_document (LoadPage n) = True"
| "reads_document (GetText n) = True"
| "reads_document (DocxDocument p) = True"
| "reads_document e = False"

text \<open>The documents opened by \<open>fitz.open\<close> in a run and not released since, oldest first.\<close>

fun open_documents :: "event list \<Rightarrow> ustring list \<Rightarrow> ustring list" where
  "open_documents [] ds = ds"
| "open_documents (FitzOpen p # tr) ds = open_documents tr (ds @ [p])"
| "open_documents (Release p # tr) ds = open_documents tr (remove1 p ds)"
| "open_documents (e # tr) ds = open_documents tr ds"

text \<open>What a Python function returns: here \<open>None\<close> or an integer.\<close>

datatype pyval = PyNone | PyInt int

section \<open>\<open>FileAnalyzer\<close>\<close>

text \<open>
  The attributes of a \<open>FileAnalyzer\<close> that the analysis reads. The logger is the sink of
  the \<open>LogError\<close> and \<open>LogInfo\<close> events.
\<close>

record FileAnalyzer =
  file_path :: ustring
  stopwords :: "ustring set"

subsection \<open>\<open>__init__\<close>: loading the stopwords\<close>

text \<open>\<open>for line in f: self.stopwords.add(line.strip())\<close>.\<close>

fun add_lines :: "env \<Rightarrow> ustring list \<Rightarrow> ustring set \<Rightarrow> ustring set" where
  "add_lines E [] S = S"
| "add_lines E (line # lines) S = add_lines E lines (insert (strip E line) S)"

text \<open>The loop over the files of one directory.\<close>

fun load_files :: "env \<Rightarrow> ustring \<Rightarrow> ustring list \<Rightarrow> ustring set \<Rightarrow> error + ustring set" where
  "load_files E root [] S = Inr S"
| "load_files E root (file # files) S =
     (if \<not> endswith file (ustr ''.txt'') then load_files E root files S
      else case open_read E (os_path_join E root file) of
             None \<Rightarrow> Inl LibraryError
           | Some lines \<Rightarrow> load_files E root files (add_lines E lines S))"

text \<open>The loop over the triples of \<open>os.walk('stopwords')\<close>.\<close>

fun load_walk ::
  "env \<Rightarrow> (ustring \<times> ustring list \<times> ustring list) list \<Rightarrow> ustring set \<Rightarrow> error + ustring set"
where
  "load_walk E [] S = Inr S"
| "load_walk E ((root, dirs, files) # rest) S =
     (case load_files E root files S of
        Inl e \<Rightarrow> Inl e
      | Inr S' \<Rightarrow> load_walk E rest S')"

definition FileAnalyzer_init :: "env \<Rightarrow> ustring \<Rightarrow> error + FileAnalyzer" where
  "FileAnalyzer_init E path =
     (case load_walk E (os_walk E (ustr ''stopwords'')) {} of
        Inl e \<Rightarrow> Inl e
      | Inr S \<Rightarrow> Inr \<lparr>file_path = path, stopwords = S\<rparr>)"

subsection \<open>\<open>_remove_stopwords\<close>\<close>

fun remove_stopwords :: "FileAnalyzer \<Rightarrow> ustring list \<Rightarrow> ustring list" where
  "remove_stopwords self [] = []"
| "remove_stopwords self (x # text) =
     (if length x > 1 \<and> x \<notin> stopwords self then x # remove_stopwords self text
      else remove_stopwords self text)"

subsection \<open>Extraction\<close>

text \<open>
  The loop of \<open>_extract_text_from_pdf\<close> over the page numbers, from page \<open>n\<close> on, with the
  text and the events so far. When \<open>load_page\<close> raises, \<open>get_text\<close> is not called.
\<close>

fun pdf_pages ::
  "pdf_page list \<Rightarrow> nat \<Rightarrow> ustring \<Rightarrow> event list \<Rightarrow> (error + ustring) \<times> event list"
where
  "pdf_pages [] n text tr = (Inr text, tr)"
| "pdf_pages (LoadPageError # ps) n text tr = (Inl LibraryError, tr @ [LoadPage n])"
| "pdf_pages (GetTextError # ps) n text tr = (Inl LibraryError, tr @ [LoadPage n, GetText n])"
| "pdf_pages (Page t # ps) n text tr =
     pdf_pages ps (Suc n) (text @ t) (tr @ [LoadPage n, GetText n])"

text \<open>
  The document is held by the local \<open>doc\<close> alone. When the function returns the text,
  this last reference dies and the runtime finalises the document, which releases it.
  When an exception leaves the function, the traceback keeps the frame, and \<open>doc\<close> with
  it, until the caller has handled the exception: nothing is released before the call
  has ended.
\<close>

definition extract_text_from_pdf :: "env \<Rightarrow> FileAnalyzer \<Rightarrow> (error + ustring) \<times> event list" where
  "extract_text_from_pdf E self =
     (case fitz_open E (file_path self) of
        None \<Rightarrow> (Inl LibraryError, [FitzOpenError (file_path self)])
      | Some doc \<Rightarrow>
          (case pdf_pages doc 0 [] [FitzOpen (file_path self)] of
             (Inl e, tr) \<Rightarrow> (Inl e, tr)
           | (Inr text, tr) \<Rightarrow> (Inr text, tr @ [Release (file_path self)])))"

definition extract_text_from_docx :: "env \<Rightarrow> FileAnalyzer \<Rightarrow> (error + ustring) \<times> event list" where
  "extract_text_from_docx E self =
     (case docx_Document E (file_path self) of
        None \<Rightarrow> (Inl LibraryError, [DocxDocument (file_path self)])
      | Some paragraphs \<Rightarrow> (Inr (join [10] paragraphs), [DocxDocument (file_path self)]))"

text \<open>
  The dispatch on the extension, which \<open>analyze_file\<close> (lines 106 to 113) and
  \<open>count_given_word_frequency\<close> (lines 159 to 166) both start with, in the same words.
\<close>

definition unsupported_message :: ustring where
  "unsupported_message = ustr ''Unsupported file format. Only .pdf and .docx are supported.''"

definition load_text :: "env \<Rightarrow> FileAnalyzer \<Rightarrow> (error + ustring) \<times> event list" where
  "load_text E self =
     (if endswith (file_path self) (ustr ''.pdf'') then extract_text_from_pdf E self
      else if endswith (file_path self) (ustr ''.docx'') then extract_text_from_docx E self
      else (Inl (ValueError unsupported_message), [LogError (ustr ''Unsupported file format'')]))"

subsection \<open>\<open>analyze_file\<close>\<close>

text \<open>
  The keywords: \<open>jieba.cut\<close>, \<open>_remove_stopwords\<close>, \<open>' '.join\<close>, \<open>extract_tags\<close> with
  \<open>topK=1000\<close>.
\<close>

definition keyword_tokens :: "env \<Rightarrow> FileAnalyzer \<Rightarrow> ustring \<Rightarrow> ustring list" where
  "keyword_tokens E self text =
     (let words = jieba_cut E text;
          cleaned_words = remove_stopwords self words;
          cleaned_text = join [32] cleaned_words
      in jieba_extract_tags E cleaned_text 1000)"

text \<open>The three lists that are counted: \<open>chinese\<close>, \<open>numbers\<close>, \<open>special_characters\<close>.\<close>

definition chinese_list :: "env \<Rightarrow> FileAnalyzer \<Rightarrow> ustring \<Rightarrow> ustring list" where
  "chinese_list E self text =
     [word \<leftarrow> keyword_tokens E self text. fullmatch_plus chinese_char word]"

definition numbers_list :: "env \<Rightarrow> ustring \<Rightarrow> ustring list" where
  "numbers_list E text = findall (number_pattern E) text"

definition special_characters_list :: "env \<Rightarrow> ustring \<Rightarrow> ustring list" where
  "special_characters_list E text = findall (special_char_pattern E) text"

text \<open>The dictionary that \<open>analyze_file\<close> returns, a field for each of its three keys.\<close>

record analysis =
  Chinese_Words :: "ustring counter"
  Numbers :: "ustring counter"
  Special_Characters :: "ustring counter"

definition analyze_file ::
  "env \<Rightarrow> FileAnalyzer \<Rightarrow> int \<Rightarrow> (error + analysis) \<times> event list" where
  "analyze_file E self top_k_words =
     (case load_text E self of
        (Inl e, tr) \<Rightarrow> (Inl e, tr)
      | (Inr text, tr) \<Rightarrow>
          let chinese_common_words =
                most_common top_k_words (word_frequency (chinese_list E self text));
              number_common_words =
                most_common top_k_words (word_frequency (numbers_list E text));
              special_char_common_words =
                most_common top_k_words (word_frequency (special_characters_list E text))
          in (Inr \<lparr>Chinese_Words = chinese_common_words,
                    Numbers = number_common_words,
                    Special_Characters = special_char_common_words\<rparr>,
              tr @ [LogInfo (ustr ''Most common chinese characters: %s'') chinese_common_words,
                    LogInfo (ustr ''Most common numbers: %s'') number_common_words,
                    LogInfo (ustr ''Most common special characters: %s'')
                      special_char_common_words]))"

subsection \<open>\<open>count_given_word_frequency\<close>\<close>

text \<open>The list \<open>chinese\<close> of the function and the \<open>count\<close> it computes from the text.\<close>

definition stripped_tokens :: "env \<Rightarrow> ustring \<Rightarrow> ustring list" where
  "stripped_tokens E text =
     (let cleaned_text = sub_space punctuation_pattern text;
          words = jieba_cut E cleaned_text
      in [strip E word. word \<leftarrow> words, strip E word \<noteq> []])"

definition given_word_count :: "env \<Rightarrow> ustring \<Rightarrow> ustring \<Rightarrow> int" where
  "given_word_count E text input_word = int (count_list (stripped_tokens E text) input_word)"

text \<open>
  The function prints the count and ends without a \<open>return\<close> statement: it returns
  \<open>None\<close>.
\<close>

definition count_given_word_frequency ::
  "env \<Rightarrow> FileAnalyzer \<Rightarrow> ustring \<Rightarrow> (error + pyval) \<times> event list" where
  "count_given_word_frequency E self input_word =
     (case load_text E self of
        (Inl e, tr) \<Rightarrow> (Inl e, tr)
      | (Inr text, tr) \<Rightarrow>
          let count = given_word_count E text input_word
          in (Inr PyNone, tr @ [Print (ustr ''The frequency of the given word is: '') count]))"

section \<open>A sample environment\<close>

text \<open>
  A small world on which the functions can be run: ASCII and the CJK block for the
  Unicode predicates, a segmenter that cuts a text into its runs of letters and digits
  and its other characters one by one (on the sample texts below it yields the tokens
  \<open>jieba\<close> yields), keywords that are the distinct tokens of two characters or more, three
  documents and a stopword directory.
\<close>

definition sample_isalpha :: "nat \<Rightarrow> bool" where
  "sample_isalpha c = ((65 \<le> c \<and> c \<le> 90) \<or> (97 \<le> c \<and> c \<le> 122) \<or> (0x4e00 \<le> c \<and> c \<le> 0x9fff))"

definition sample_isdecimal :: "nat \<Rightarrow> bool" where
  "sample_isdecimal c = (48 \<le> c \<and> c \<le> 57)"

definition sample_isspace :: "nat \<Rightarrow> bool" where
  "sample_isspace c = (c \<in> set [9, 10, 11, 12, 13, 32, 0x3000])"

fun sample_cut_from :: "ustring \<Rightarrow> ustring \<Rightarrow> ustring list" where
  "sample_cut_from run [] = (if run = [] then [] else [run])"
| "sample_cut_from run (c # cs) =
     (if sample_isalpha c \<or> sample_isdecimal c then sample_cut_from (run @ [c]) cs
      else (if run = [] then [] else [run]) @ [[c]] @ sample_cut_from [] cs)"

definition sample_cut :: "ustring \<Rightarrow> ustring list" where
  "sample_cut text = sample_cut_from [] text"

definition sample_extract_tags :: "ustring \<Rightarrow> nat \<Rightarrow> ustring list" where
  "sample_extract_tags text topK = take topK (remdups [w \<leftarrow> sample_cut text. length w > 1])"

text \<open>The texts \<open>"ni hao, shi jie! ni hao!"\<close> and \<open>"3 apples, 2 oranges! ni hao, ni hao."\<close>, the
  Chinese words and marks in Chinese characters.\<close>

definition hello :: ustring where
  "hello = [0x4f60, 0x597d]"

definition hello_world_text :: ustring where
  "hello_world_text = hello @ [0xff0c, 0x4e16, 0x754c, 0xff01] @ hello @ [0xff01]"

definition apples_text :: ustring where
  "apples_text = ustr ''3 apples, 2 oranges! '' @ hello @ [0xff0c] @ hello @ [0x3002]"

definition sample_fitz_open :: "ustring \<Rightarrow> pdf_page list option" where
  "sample_fitz_open path =
     (if path = ustr ''doc.pdf'' then Some [Page hello_world_text]
      else if path = ustr ''broken.pdf'' then Some [Page hello_world_text, LoadPageError]
      else None)"

definition sample_docx_Document :: "ustring \<Rightarrow> ustring list option" where
  "sample_docx_Document path =
     (if path = ustr ''doc.docx'' then Some [hello_world_text]
      else if path = ustr ''apples.docx'' then Some [apples_text]
      else None)"

text \<open>
  The directory \<open>stopwords\<close> holds \<open>cn.txt\<close>, of three lines (a word, an empty line, a word
  after a space), and \<open>README.md\<close>.
\<close>

definition sample_os_walk :: "ustring \<Rightarrow> (ustring \<times> ustring list \<times> ustring list) list" where
  "sample_os_walk d =
     (if d = ustr ''stopwords'' then [(d, [], [ustr ''cn.txt'', ustr ''README.md''])]
      else [])"

definition sample_open_read :: "ustring \<Rightarrow> ustring list option" where
  "sample_open_read path =
     (if path = ustr ''stopwords/cn.txt'' then Some [[0x7684, 10], [10], [32, 0x4e16, 0x754c, 10]]
      else None)"

definition sample_env :: env where
  "sample_env =
     \<lparr>uni_isalpha = sample_isalpha,
      uni_isdecimal = sample_isdecimal,
      uni_isdigit = sample_isdecimal,
      uni_isnumeric = sample_isdecimal,
      uni_isspace = sample_isspace,
      jieba_cut = sample_cut,
      jieba_extract_tags = sample_extract_tags,
      fitz_open = sample_fitz_open,
      docx_Document = sample_docx_Document,
      os_walk = sample_os_walk,
      os_path_join = (\<lambda>root file. root @ [47] @ file),
      open_read = sample_open_read\<rparr>"

text \<open>The same world without the directory \<open>stopwords\<close>.\<close>

definition bare_env :: env where
  "bare_env = sample_env\<lparr>os_walk := (\<lambda>d. [])\<rparr>"

text \<open>An analyzer of the sample world, with one stopword.\<close>

definition sample_analyzer :: "string \<Rightarrow> FileAnalyzer" where
  "sample_analyzer name = \<lparr>file_path = ustr name, stopwords = {[0x7684]}\<rparr>"

section \<open>The stopword directory, as a list of lines\<close>

text \<open>
  The lines of the files of one directory whose name ends in \<open>.txt\<close>, and the lines of all
  such files under \<open>stopwords\<close>: what the loader is compared with.
\<close>

definition txt_file_lines :: "env \<Rightarrow> ustring \<Rightarrow> ustring list \<Rightarrow> ustring list" where
  "txt_file_lines E root files =
     concat (map (\<lambda>file. case open_read E (os_path_join E root file) of
                           None \<Rightarrow> [] | Some lines \<Rightarrow> lines)
                 (filter (\<lambda>file. endswith file (ustr ''.txt'')) files))"

definition stopword_file_lines :: "env \<Rightarrow> ustring list" where
  "stopword_file_lines E =
     concat (map (\<lambda>(root, dirs, files). txt_file_lines E root files)
                 (os_walk E (ustr ''stopwords'')))"

section \<open>Properties of the counter\<close>

lemma counter_add_keys:
  "map fst (counter_add c w) = (if w \<in> set (map fst c) then map fst c else map fst c @ [w])"
  by (induction c w rule: counter_add.induct) auto

lemma Counter_snoc: "Counter (ws @ [w]) = counter_add (Counter ws) w"
  by (simp add: Counter_def)

lemma Counter_keys: "set (map fst (Counter ws)) = set ws \<and> distinct (map fst (Counter ws))"
  by (induction ws rule: rev_induct) (auto simp: Counter_snoc counter_add_keys Counter_def)

lemma counter_add_old:
  "v \<noteq> w \<Longrightarrow> (v, n) \<in> set (counter_add c w) \<longleftrightarrow> (v, n) \<in> set c"
  by (induction c w rule: counter_add.induct) auto

lemma counter_add_fresh:
  "w \<notin> fst ` set c \<Longrightarrow> (w, n) \<in> set (counter_add c w) \<longleftrightarrow> n = 1"
  by (induction c w rule: counter_add.induct) (auto simp: image_iff)

lemma counter_add_bump:
  "distinct (map fst c) \<Longrightarrow> (w, m) \<in> set c \<Longrightarrow>
     (w, n) \<in> set (counter_add c w) \<longleftrightarrow> n = m + 1"
  by (induction c w rule: counter_add.induct) (auto simp: image_iff)

lemma Counter_count:
  "(v, n) \<in> set (Counter ws) \<longleftrightarrow> v \<in> set ws \<and> n = int (count_list ws v)"
proof (induction ws arbitrary: v n rule: rev_induct)
  case Nil
  then show ?case by (simp add: Counter_def)
next
  case (snoc w ws)
  have d: "distinct (map fst (Counter ws))" and s: "fst ` set (Counter ws) = set ws"
    using Counter_keys [of ws] by simp_all
  show ?case
  proof (cases "v = w")
    case False
    have "(v, n) \<in> set (Counter (ws @ [w])) \<longleftrightarrow> (v, n) \<in> set (Counter ws)"
      unfolding Counter_snoc using False by (rule counter_add_old)
    also have "\<dots> \<longleftrightarrow> v \<in> set ws \<and> n = int (count_list ws v)" by (rule snoc.IH)
    finally show ?thesis using False by simp
  next
    case True
    show ?thesis
    proof (cases "w \<in> set ws")
      case False
      then have "w \<notin> fst ` set (Counter ws)" using s by simp
      then have "(w, n) \<in> set (Counter (ws @ [w])) \<longleftrightarrow> n = 1"
        unfolding Counter_snoc by (rule counter_add_fresh)
      moreover have "count_list ws w = 0" using False by (simp add: count_list_0_iff)
      ultimately show ?thesis using True by simp
    next
      case in_ws: True
      then have "(w, int (count_list ws w)) \<in> set (Counter ws)" using snoc.IH by simp
      from counter_add_bump [OF d this]
      have "(w, n) \<in> set (Counter (ws @ [w])) \<longleftrightarrow> n = int (count_list ws w) + 1"
        unfolding Counter_snoc .
      then show ?thesis using True in_ws by (simp add: algebra_simps)
    qed
  qed
qed

lemma first_seen_snoc:
  "v \<in> set ws \<Longrightarrow> first_seen (ws @ [w]) v = first_seen ws v"
  by (simp add: first_seen_def takeWhile_append1)

lemma first_seen_less: "v \<in> set ws \<Longrightarrow> first_seen ws v < length ws"
  unfolding first_seen_def by (induction ws) auto

lemma first_seen_new: "w \<notin> set ws \<Longrightarrow> first_seen (ws @ [w]) w = length ws"
  unfolding first_seen_def by (induction ws) auto

lemma Counter_order:
  "sorted_wrt (<) (map (first_seen ws) (map fst (Counter ws)))"
proof (induction ws rule: rev_induct)
  case Nil
  then show ?case by (simp add: Counter_def)
next
  case (snoc w ws)
  let ?ks = "map fst (Counter ws)"
  have s: "set ?ks = set ws" using Counter_keys [of ws] by (rule conjunct1)
  have eq: "map (first_seen (ws @ [w])) ?ks = map (first_seen ws) ?ks"
  proof (rule map_cong [OF refl])
    fix v assume "v \<in> set ?ks"
    then have "v \<in> set ws" unfolding s .
    then show "first_seen (ws @ [w]) v = first_seen ws v" by (rule first_seen_snoc)
  qed
  have keys: "map fst (Counter (ws @ [w])) = (if w \<in> set ws then ?ks else ?ks @ [w])"
    unfolding Counter_snoc counter_add_keys s ..
  show ?case
  proof (cases "w \<in> set ws")
    case True
    then have "map fst (Counter (ws @ [w])) = ?ks" unfolding keys by simp
    then show ?thesis using snoc.IH unfolding eq [symmetric] by (simp only:)
  next
    case False
    then have k: "map fst (Counter (ws @ [w])) = ?ks @ [w]" unfolding keys by simp
    have lt: "\<forall>x\<in>set (map (first_seen ws) ?ks). x < length ws"
    proof
      fix x assume "x \<in> set (map (first_seen ws) ?ks)"
      then obtain v where "v \<in> set ?ks" "x = first_seen ws v" by auto
      then show "x < length ws" using first_seen_less [of v ws] unfolding s by simp
    qed
    have a: "map (first_seen (ws @ [w])) (?ks @ [w]) = map (first_seen ws) ?ks @ [length ws]"
      unfolding map_append eq using False by (simp add: first_seen_new)
    have b: "sorted_wrt (<) (map (first_seen ws) ?ks @ [length ws])"
      unfolding sorted_wrt_append using snoc.IH lt by simp
    show ?thesis unfolding k a by (rule b)
  qed
qed

lemma insort_key_tie:
  assumes "sorted_wrt (\<lambda>p q. f p < f q \<or> (f p = f q \<and> R p q)) ys"
    and "\<forall>y\<in>set ys. R x y"
  shows "sorted_wrt (\<lambda>p q. f p < f q \<or> (f p = f q \<and> R p q)) (insort_key f x ys)"
  using assms by (induction ys) (auto simp: set_insort_key)

lemma sort_key_tie:
  "sorted_wrt R xs \<Longrightarrow>
     sorted_wrt (\<lambda>p q. f p < f q \<or> (f p = f q \<and> R p q)) (sort_key f xs)"
  by (induction xs) (auto intro: insort_key_tie)

text \<open>The order of a top list: by descending count, and among equal counts by the
  position of the first occurrence in the counted list.\<close>

lemma most_common_order:
  "sorted_wrt (\<lambda>p q. snd p > snd q \<or> (snd p = snd q \<and> first_seen ws (fst p) < first_seen ws (fst q)))
     (most_common k (word_frequency ws))"
proof -
  have "sorted_wrt (\<lambda>p q. first_seen ws (fst p) < first_seen ws (fst q)) (Counter ws)"
    using Counter_order [of ws] by (simp add: sorted_wrt_map)
  from sort_key_tie [OF this, of "\<lambda>p. - snd p"]
  have "sorted_wrt (\<lambda>p q. snd p > snd q \<or> (snd p = snd q \<and> first_seen ws (fst p) < first_seen ws (fst q)))
          (sort_key (\<lambda>p. - snd p) (Counter ws))"
    by simp
  then show ?thesis
    unfolding most_common_def word_frequency_def by (rule sorted_wrt_take)
qed

lemma most_common_subset: "set (most_common k c) \<subseteq> set c"
  unfolding most_common_def using set_take_subset [of "nat k" "sort_key (\<lambda>p. - snd p) c"]
  by simp

lemma most_common_entry:
  assumes "(w, n) \<in> set (most_common k (word_frequency ws))"
  shows "w \<in> set ws \<and> n = int (count_list ws w) \<and> 0 < n"
proof -
  have "(w, n) \<in> set (Counter ws)"
    using assms most_common_subset [of k "Counter ws"] unfolding word_frequency_def by auto
  then have a: "w \<in> set ws" and b: "n = int (count_list ws w)"
    unfolding Counter_count by simp_all
  have "count_list ws w \<noteq> 0" using a by (simp add: count_list_0_iff)
  then show ?thesis using a b by simp
qed

lemma most_common_distinct: "distinct (map fst (most_common k (word_frequency ws)))"
proof -
  have "distinct (map fst (sort_key (\<lambda>p. - snd p) (Counter ws)))"
    using Counter_keys [of ws] by (simp add: distinct_map)
  then show ?thesis
    unfolding most_common_def word_frequency_def take_map [symmetric] by (rule distinct_take)
qed

lemma Counter_length: "length (Counter ws) = card (set ws)"
proof -
  have d: "distinct (map fst (Counter ws))" and s: "set (map fst (Counter ws)) = set ws"
    using Counter_keys [of ws] by (rule conjunct2, rule conjunct1)
  have "card (set (map fst (Counter ws))) = length (map fst (Counter ws))"
    using d by (rule distinct_card)
  then show ?thesis unfolding s by simp
qed

lemma most_common_all:
  assumes "int (card (set ws)) \<le> k"
  shows "fst ` set (most_common k (word_frequency ws)) = set ws"
proof -
  have "length (sort_key (\<lambda>p. - snd p) (Counter ws)) \<le> nat k"
    using assms by (simp add: Counter_length)
  then have "most_common k (word_frequency ws) = sort_key (\<lambda>p. - snd p) (Counter ws)"
    unfolding most_common_def word_frequency_def by simp
  then show ?thesis using Counter_keys [of ws] by simp
qed

section \<open>Properties of the model\<close>

lemma findall_eq: "findall p cs = map (\<lambda>c. [c]) (filter p cs)"
  by (induction cs) simp_all

lemma fullmatch_plus_iff: "fullmatch_plus p w \<longleftrightarrow> w \<noteq> [] \<and> list_all p w"
  by (induction p w rule: fullmatch_plus.induct) auto

lemma remove_stopwords_filter:
  "remove_stopwords self ws = filter (\<lambda>x. 1 < length x \<and> x \<notin> stopwords self) ws"
  by (induction ws) simp_all

lemma add_lines_eq: "add_lines E lines S = S \<union> strip E ` set lines"
  by (induction lines arbitrary: S) auto

lemma load_files_eq:
  "load_files E root files S = Inr S' \<Longrightarrow>
     S' = S \<union> strip E ` set (txt_file_lines E root files)"
proof (induction files arbitrary: S)
  case Nil
  then show ?case by (simp add: txt_file_lines_def)
next
  case (Cons f files)
  show ?case
  proof (cases "endswith f (ustr ''.txt'')")
    case False
    then have "load_files E root files S = Inr S'" using Cons.prems by simp
    from Cons.IH [OF this] show ?thesis using False by (simp add: txt_file_lines_def)
  next
    case True
    then obtain lines where o: "open_read E (os_path_join E root f) = Some lines"
      and r: "load_files E root files (add_lines E lines S) = Inr S'"
      using Cons.prems by (auto split: option.splits)
    from Cons.IH [OF r] show ?thesis using True o
      by (auto simp: txt_file_lines_def add_lines_eq)
  qed
qed

lemma load_walk_eq:
  "load_walk E triples S = Inr S' \<Longrightarrow>
     S' = S \<union> strip E ` set (concat (map (\<lambda>(root, dirs, files). txt_file_lines E root files) triples))"
proof (induction triples arbitrary: S)
  case Nil
  then show ?case by simp
next
  case (Cons t triples)
  obtain root dirs files where t: "t = (root, dirs, files)" by (cases t) auto
  from Cons.prems obtain S1 where a: "load_files E root files S = Inr S1"
    and b: "load_walk E triples S1 = Inr S'"
    unfolding t by (auto split: sum.splits)
  have 1: "S1 = S \<union> strip E ` set (txt_file_lines E root files)"
    using a by (rule load_files_eq)
  have 2: "S' = S1 \<union> strip E ` set (concat (map (\<lambda>(root, dirs, files). txt_file_lines E root files) triples))"
    using b by (rule Cons.IH)
  show ?case unfolding t 2 1 by (simp add: image_Un Un_assoc)
qed

lemma pdf_pages_events:
  "\<exists>tr'. snd (pdf_pages ps n acc tr) = tr @ tr' \<and> list_all (\<lambda>e. (\<exists>i. e = LoadPage i) \<or> (\<exists>i. e = GetText i)) tr'"
proof (induction ps n acc tr rule: pdf_pages.induct)
  case (1 n acc tr)
  then show ?case by simp
next
  case (2 ps n acc tr)
  then show ?case by simp
next
  case (3 ps n acc tr)
  then show ?case by simp
next
  case (4 t ps n acc tr)
  then obtain tr' where "snd (pdf_pages ps (Suc n) (acc @ t) (tr @ [LoadPage n, GetText n])) = (tr @ [LoadPage n, GetText n]) @ tr'"
    and "list_all (\<lambda>e. (\<exists>i. e = LoadPage i) \<or> (\<exists>i. e = GetText i)) tr'" by auto
  then show ?case by (intro exI [of _ "[LoadPage n, GetText n] @ tr'"]) simp
qed

lemma open_documents_pages:
  "list_all (\<lambda>e. (\<exists>i. e = LoadPage i) \<or> (\<exists>i. e = GetText i)) tr \<Longrightarrow> open_documents tr ds = ds"
  by (induction tr arbitrary: ds) auto

lemma pdf_pages_not_ValueError: "fst (pdf_pages ps n acc tr) \<noteq> Inl (ValueError m)"
  by (induction ps n acc tr rule: pdf_pages.induct) simp_all

lemma open_documents_append:
  "open_documents (tr @ tr') ds = open_documents tr' (open_documents tr ds)"
  by (induction tr ds rule: open_documents.induct) simp_all

lemma extract_text_from_pdf_cases:
  "(fitz_open E (file_path self) = None \<and>
      extract_text_from_pdf E self = (Inl LibraryError, [FitzOpenError (file_path self)])) \<or>
   (\<exists>doc e tr. fitz_open E (file_path self) = Some doc \<and>
      pdf_pages doc 0 [] [FitzOpen (file_path self)] = (Inl e, tr) \<and>
      extract_text_from_pdf E self = (Inl e, tr)) \<or>
   (\<exists>doc t tr. fitz_open E (file_path self) = Some doc \<and>
      pdf_pages doc 0 [] [FitzOpen (file_path self)] = (Inr t, tr) \<and>
      extract_text_from_pdf E self = (Inr t, tr @ [Release (file_path self)]))"
proof (cases "fitz_open E (file_path self)")
  case None
  then show ?thesis by (simp add: extract_text_from_pdf_def)
next
  case (Some doc)
  obtain r tr where p: "pdf_pages doc 0 [] [FitzOpen (file_path self)] = (r, tr)"
    by (cases "pdf_pages doc 0 [] [FitzOpen (file_path self)]") auto
  show ?thesis
  proof (cases r)
    case (Inl e)
    then show ?thesis using Some p by (simp add: extract_text_from_pdf_def)
  next
    case (Inr t)
    then show ?thesis using Some p by (simp add: extract_text_from_pdf_def)
  qed
qed

lemma extract_not_ValueError:
  "fst (extract_text_from_pdf E self) \<noteq> Inl (ValueError m)"
  "fst (extract_text_from_docx E self) \<noteq> Inl (ValueError m)"
proof -
  show "fst (extract_text_from_docx E self) \<noteq> Inl (ValueError m)"
    by (simp add: extract_text_from_docx_def split: option.splits)
  show "fst (extract_text_from_pdf E self) \<noteq> Inl (ValueError m)"
    using extract_text_from_pdf_cases [of E self]
      pdf_pages_not_ValueError [of _ 0 "[]" "[FitzOpen (file_path self)]" m]
    by (elim disjE exE conjE) (simp, metis fst_conv, simp)
qed

lemma extract_text_stopwords:
  "extract_text_from_pdf E (self\<lparr>stopwords := S\<rparr>) = extract_text_from_pdf E self"
  "extract_text_from_docx E (self\<lparr>stopwords := S\<rparr>) = extract_text_from_docx E self"
  unfolding extract_text_from_pdf_def extract_text_from_docx_def
  by (auto split: option.splits prod.splits sum.splits)

lemma load_text_stopwords: "load_text E (self\<lparr>stopwords := S\<rparr>) = load_text E self"
  by (simp add: load_text_def extract_text_stopwords)

lemma analyze_file_text:
  "fst (load_text E self) = Inr text \<Longrightarrow>
     fst (analyze_file E self k) =
       Inr \<lparr>Chinese_Words = most_common k (word_frequency (chinese_list E self text)),
            Numbers = most_common k (word_frequency (numbers_list E text)),
            Special_Characters = most_common k (word_frequency (special_characters_list E text))\<rparr>"
  by (cases "load_text E self") (simp add: analyze_file_def Let_def)

lemma analyze_file_Inr:
  "fst (analyze_file E self k) = Inr r \<Longrightarrow> \<exists>text. fst (load_text E self) = Inr text"
  by (cases "load_text E self") (auto simp: analyze_file_def Let_def split: sum.splits)

lemma findall_entry:
  assumes "(w, n) \<in> set (most_common k (word_frequency (findall p cs)))"
  shows "\<exists>c. w = [c] \<and> p c"
proof -
  have "w \<in> set (findall p cs)" using most_common_entry [OF assms] by simp
  then show ?thesis by (auto simp: findall_eq)
qed

lemma chinese_list_stopwords:
  "stopwords self' = stopwords self \<Longrightarrow> chinese_list E self' t = chinese_list E self t"
  by (simp add: chinese_list_def keyword_tokens_def remove_stopwords_filter)

section \<open>Runs in the sample world\<close>

lemma sample_path: "file_path (sample_analyzer n) = ustr n"
  by (simp add: sample_analyzer_def)

lemma extract_doc_pdf:
  "extract_text_from_pdf sample_env (sample_analyzer ''doc.pdf'') =
     (Inr hello_world_text,
      [FitzOpen (ustr ''doc.pdf''), LoadPage 0, GetText 0, Release (ustr ''doc.pdf'')])"
  by (simp add: sample_analyzer_def ustr_def extract_text_from_pdf_def sample_env_def
      sample_fitz_open_def)

lemma load_doc_pdf:
  "load_text sample_env (sample_analyzer ''doc.pdf'') =
     (Inr hello_world_text,
      [FitzOpen (ustr ''doc.pdf''), LoadPage 0, GetText 0, Release (ustr ''doc.pdf'')])"
  by (simp add: load_text_def sample_analyzer_def endswith_def ustr_def
      extract_text_from_pdf_def sample_env_def sample_fitz_open_def)

lemma tokens_hello_world:
  "stripped_tokens sample_env hello_world_text = [hello, [0x4e16, 0x754c], hello]"
  by (simp add: stripped_tokens_def hello_world_text_def hello_def punctuation_pattern_def
      punctuation_chars_def sample_env_def sample_cut_def sample_isalpha_def
      sample_isdecimal_def sample_isspace_def strip_def)

lemma init_sample:
  "FileAnalyzer_init sample_env (ustr ''doc.pdf'') =
     Inr \<lparr>file_path = ustr ''doc.pdf'', stopwords = {[0x7684], [], [0x4e16, 0x754c]}\<rparr>"
  by (simp add: FileAnalyzer_init_def sample_env_def sample_os_walk_def sample_open_read_def
      endswith_def ustr_def strip_def sample_isspace_def insert_commute)

lemma load_apples_docx:
  "load_text sample_env (sample_analyzer ''apples.docx'') =
     (Inr apples_text, [DocxDocument (ustr ''apples.docx'')])"
  by (simp add: load_text_def sample_analyzer_def endswith_def ustr_def
      extract_text_from_docx_def sample_env_def sample_docx_Document_def)

lemma apples_lists:
  "chinese_list sample_env (sample_analyzer ''apples.docx'') apples_text = [hello]"
  "numbers_list sample_env apples_text = [[51], [50]]"
  "special_characters_list sample_env apples_text = [[44], [33], [0xff0c], [0x3002]]"
  by (simp_all add: chinese_list_def keyword_tokens_def numbers_list_def
      special_characters_list_def sample_analyzer_def apples_text_def hello_def ustr_def
      sample_env_def sample_cut_def sample_extract_tags_def sample_isalpha_def
      sample_isdecimal_def sample_isspace_def chinese_char_def number_pattern_def
      special_char_pattern_def re_digit_def re_word_def re_space_def)

lemma load_doc_docx:
  "load_text sample_env (sample_analyzer ''doc.docx'') =
     (Inr hello_world_text, [DocxDocument (ustr ''doc.docx'')])"
  by (simp add: load_text_def sample_analyzer_def endswith_def ustr_def
      extract_text_from_docx_def sample_env_def sample_docx_Document_def)

lemma extract_broken_pdf:
  "extract_text_from_pdf sample_env (sample_analyzer ''broken.pdf'') =
     (Inl LibraryError,
      [FitzOpen (ustr ''broken.pdf''), LoadPage 0, GetText 0, LoadPage 1])"
  by (simp add: sample_analyzer_def ustr_def extract_text_from_pdf_def sample_env_def
      sample_fitz_open_def)

lemma analyze_apples:
  "fst (analyze_file sample_env (sample_analyzer ''apples.docx'') 5) =
     Inr \<lparr>Chinese_Words = [(hello, 1)],
          Numbers = [([51], 1), ([50], 1)],
          Special_Characters = [([44], 1), ([33], 1), ([0xff0c], 1), ([0x3002], 1)]\<rparr>"
proof -
  have "fst (load_text sample_env (sample_analyzer ''apples.docx'')) = Inr apples_text"
    by (simp add: load_apples_docx)
  from analyze_file_text [OF this, of 5] show ?thesis
    unfolding apples_lists
    by (simp add: most_common_def word_frequency_def Counter_def hello_def)
qed

lemma top_two_sample:
  "most_common 2 (word_frequency [3 :: nat, 1, 1, 2, 3, 5]) = [(3, 2), (1, 2)]"
  by (simp add: most_common_def word_frequency_def Counter_def numeral_2_eq_2)

section \<open>The exact-word counter\<close>

text \<open>
  Whatever the document and the word, the function prints the number of stripped,
  non-empty tokens equal to the word, and its value is never an integer.
\<close>

lemma count_given_word_frequency_value:
  "fst (count_given_word_frequency E self w) \<noteq> Inr (PyInt n)"
  by (cases "load_text E self")
    (auto simp: count_given_word_frequency_def Let_def split: sum.splits)

lemma count_given_word_frequency_prints:
  "load_text E self = (Inr t, tr) \<Longrightarrow>
     count_given_word_frequency E self w =
       (Inr PyNone,
        tr @ [Print (ustr ''The frequency of the given word is: '')
                (int (count_list (stripped_tokens E t) w))])"
  by (simp add: count_given_word_frequency_def given_word_count_def)

text \<open>
  Claim C1: for every text and target word the exact-word counter
  \<open>count_given_word_frequency\<close> returns the number of stripped, non-empty tokens of the
  text, punctuation replaced by spaces, that equal the target; on the text
  "ni hao, shi jie! ni hao!" (in Chinese characters) and the target "ni hao" it returns 2.

  The function computes that number and prints it, and returns \<open>None\<close>: on a PDF of one
  page with this text it prints 2 and its value is \<open>None\<close>, where the caller
  \<open>GUI.count_word_frequency\<close> shows the value as the frequency.
\<close>

theorem count_given_word_frequency_returns_None:
  "count_given_word_frequency sample_env (sample_analyzer ''doc.pdf'') hello =
     (Inr PyNone,
      [FitzOpen (ustr ''doc.pdf''), LoadPage 0, GetText 0, Release (ustr ''doc.pdf''),
       Print (ustr ''The frequency of the given word is: '') 2])"
  by (simp add: count_given_word_frequency_def load_doc_pdf given_word_count_def
      tokens_hello_world hello_def)

section \<open>Unsupported formats\<close>

text \<open>
  Claim C2: for a path that ends neither in \<open>.pdf\<close> nor in \<open>.docx\<close> (the comparison
  is case-sensitive), \<open>analyze_file\<close> and \<open>count_given_word_frequency\<close> both raise the
  error whose message names \<open>.pdf\<close> and \<open>.docx\<close> as the only supported formats, after
  logging and before any call that opens or reads a document; for a path that ends in
  \<open>.pdf\<close> or \<open>.docx\<close> neither raises a \<open>ValueError\<close>.
\<close>

theorem unsupported_format:
  "(\<not> endswith (file_path self) (ustr ''.pdf'') \<and> \<not> endswith (file_path self) (ustr ''.docx'') \<longrightarrow>
      analyze_file E self k =
        (Inl (ValueError unsupported_message), [LogError (ustr ''Unsupported file format'')]) \<and>
      count_given_word_frequency E self w =
        (Inl (ValueError unsupported_message), [LogError (ustr ''Unsupported file format'')]) \<and>
      \<not> list_ex reads_document (snd (analyze_file E self k)) \<and>
      \<not> list_ex reads_document (snd (count_given_word_frequency E self w))) \<and>
   (endswith (file_path self) (ustr ''.pdf'') \<or> endswith (file_path self) (ustr ''.docx'') \<longrightarrow>
      fst (analyze_file E self k) \<noteq> Inl (ValueError m) \<and>
      fst (count_given_word_frequency E self w) \<noteq> Inl (ValueError m)) \<and>
   unsupported_message =
     ustr ''Unsupported file format. Only '' @ ustr ''.pdf'' @ ustr '' and '' @ ustr ''.docx'' @
     ustr '' are supported.''"
proof (intro conjI impI)
  assume u: "\<not> endswith (file_path self) (ustr ''.pdf'') \<and> \<not> endswith (file_path self) (ustr ''.docx'')"
  then have l: "load_text E self =
      (Inl (ValueError unsupported_message), [LogError (ustr ''Unsupported file format'')])"
    by (simp add: load_text_def)
  show a: "analyze_file E self k =
      (Inl (ValueError unsupported_message), [LogError (ustr ''Unsupported file format'')])"
    by (simp add: analyze_file_def l)
  show c: "count_given_word_frequency E self w =
      (Inl (ValueError unsupported_message), [LogError (ustr ''Unsupported file format'')])"
    by (simp add: count_given_word_frequency_def l)
  show "\<not> list_ex reads_document (snd (analyze_file E self k))" unfolding a by simp
  show "\<not> list_ex reads_document (snd (count_given_word_frequency E self w))" unfolding c by simp
next
  assume s: "endswith (file_path self) (ustr ''.pdf'') \<or> endswith (file_path self) (ustr ''.docx'')"
  then have l: "fst (load_text E self) \<noteq> Inl (ValueError m)"
    using extract_not_ValueError [of E self m] by (auto simp: load_text_def)
  show "fst (analyze_file E self k) \<noteq> Inl (ValueError m)"
    using l by (cases "load_text E self") (auto simp: analyze_file_def Let_def split: sum.splits)
  show "fst (count_given_word_frequency E self w) \<noteq> Inl (ValueError m)"
    using l by (cases "load_text E self")
      (auto simp: count_given_word_frequency_def Let_def split: sum.splits)
next
  show "unsupported_message =
     ustr ''Unsupported file format. Only '' @ ustr ''.pdf'' @ ustr '' and '' @ ustr ''.docx'' @
     ustr '' are supported.''"
    by (simp add: unsupported_message_def ustr_def)
qed

theorem unsupported_format_witness:
  "\<not> endswith (ustr ''notes.txt'') (ustr ''.pdf'') \<and>
   \<not> endswith (ustr ''notes.txt'') (ustr ''.docx'') \<and>
   \<not> endswith (ustr ''A.PDF'') (ustr ''.pdf'') \<and>
   analyze_file sample_env (sample_analyzer ''notes.txt'') 10 =
     (Inl (ValueError unsupported_message), [LogError (ustr ''Unsupported file format'')]) \<and>
   count_given_word_frequency sample_env (sample_analyzer ''notes.txt'') hello =
     (Inl (ValueError unsupported_message), [LogError (ustr ''Unsupported file format'')]) \<and>
   endswith (ustr ''doc.pdf'') (ustr ''.pdf'') \<and>
   fst (analyze_file sample_env (sample_analyzer ''doc.pdf'') 10) \<noteq>
     Inl (ValueError unsupported_message)"
proof -
  have h: "\<not> endswith (ustr ''notes.txt'') (ustr ''.pdf'') \<and>
      \<not> endswith (ustr ''notes.txt'') (ustr ''.docx'')"
    by (simp add: endswith_def ustr_def)
  have c: "\<not> endswith (ustr ''A.PDF'') (ustr ''.pdf'')"
    by (simp add: endswith_def ustr_def)
  have g: "endswith (ustr ''doc.pdf'') (ustr ''.pdf'')"
    by (simp add: endswith_def ustr_def)
  show ?thesis
    using h c g
      unsupported_format [where self = "sample_analyzer ''notes.txt''" and E = sample_env
        and k = 10 and w = hello]
      unsupported_format [where self = "sample_analyzer ''doc.pdf''" and E = sample_env
        and k = 10 and w = hello and m = unsupported_message]
    unfolding sample_path by simp
qed

section \<open>The stopword loader\<close>

text \<open>
  Claim C3: the loader goes through the files under \<open>stopwords\<close> whose name ends in
  \<open>.txt\<close>, trims every line and adds every non-empty trimmed line to the set, so that the
  empty string is never a stopword; when the directory is absent the set is empty and
  nothing is raised.

  The loader adds every trimmed line, with no test for emptiness: in the sample world the
  file \<open>cn.txt\<close> has an empty line and the empty string is a stopword.
\<close>

theorem stopwords_empty_string_counterexample:
  "FileAnalyzer_init sample_env (ustr ''doc.pdf'') =
     Inr \<lparr>file_path = ustr ''doc.pdf'', stopwords = {[0x7684], [], [0x4e16, 0x754c]}\<rparr> \<and>
   [] \<in> {[0x7684], [], [0x4e16, 0x754c :: nat]}"
  using init_sample by simp

text \<open>
  Claim C3, amended: when the loader succeeds, the stopwords are exactly the trimmed lines
  of the files under \<open>stopwords\<close> whose name ends in \<open>.txt\<close>, the empty string among them
  when a line is empty or blank; when the directory is absent the set is empty and nothing
  is raised.
\<close>

theorem stopwords_loaded:
  "(FileAnalyzer_init E path = Inr self \<longrightarrow>
      file_path self = path \<and> stopwords self = strip E ` set (stopword_file_lines E)) \<and>
   (os_walk E (ustr ''stopwords'') = [] \<longrightarrow>
      FileAnalyzer_init E path = Inr \<lparr>file_path = path, stopwords = {}\<rparr>)"
proof (intro conjI impI)
  assume a: "FileAnalyzer_init E path = Inr self"
  then obtain S where l: "load_walk E (os_walk E (ustr ''stopwords'')) {} = Inr S"
    and s: "self = \<lparr>file_path = path, stopwords = S\<rparr>"
    by (auto simp: FileAnalyzer_init_def split: sum.splits)
  show "file_path self = path" using s by simp
  show "stopwords self = strip E ` set (stopword_file_lines E)"
    using load_walk_eq [OF l] s by (simp add: stopword_file_lines_def)
next
  assume "os_walk E (ustr ''stopwords'') = []"
  then show "FileAnalyzer_init E path = Inr \<lparr>file_path = path, stopwords = {}\<rparr>"
    by (simp add: FileAnalyzer_init_def)
qed

theorem stopwords_loaded_witness:
  "FileAnalyzer_init sample_env (ustr ''doc.pdf'') =
     Inr \<lparr>file_path = ustr ''doc.pdf'', stopwords = {[0x7684], [], [0x4e16, 0x754c]}\<rparr> \<and>
   {[0x7684], [], [0x4e16, 0x754c]} = strip sample_env ` set (stopword_file_lines sample_env) \<and>
   os_walk bare_env (ustr ''stopwords'') = [] \<and>
   FileAnalyzer_init bare_env (ustr ''doc.pdf'') =
     Inr \<lparr>file_path = ustr ''doc.pdf'', stopwords = {}\<rparr>"
proof -
  have b: "os_walk bare_env (ustr ''stopwords'') = []" by (simp add: bare_env_def)
  show ?thesis
    using init_sample b
      stopwords_loaded [where E = sample_env and path = "ustr ''doc.pdf''"
        and self = "\<lparr>file_path = ustr ''doc.pdf'', stopwords = {[0x7684], [], [0x4e16, 0x754c]}\<rparr>"]
      stopwords_loaded [where E = bare_env and path = "ustr ''doc.pdf''"]
    by simp
qed

section \<open>The stopword filter\<close>

lemma count_given_word_frequency_stopwords:
  "count_given_word_frequency E (self\<lparr>stopwords := S\<rparr>) w = count_given_word_frequency E self w"
  by (simp add: count_given_word_frequency_def load_text_stopwords)

text \<open>
  Claim C4: \<open>_remove_stopwords\<close> keeps exactly the tokens longer than one character
  that are not stopwords, in their order; \<open>analyze_file\<close> applies it to the tokens of
  \<open>jieba.cut\<close> before the keywords are extracted; \<open>count_given_word_frequency\<close> does not
  depend on the stopwords at all.
\<close>

theorem stopword_filter:
  "remove_stopwords self ws = filter (\<lambda>x. 1 < length x \<and> x \<notin> stopwords self) ws \<and>
   keyword_tokens E self t =
     jieba_extract_tags E
       (join [32] (filter (\<lambda>x. 1 < length x \<and> x \<notin> stopwords self) (jieba_cut E t))) 1000 \<and>
   (fst (load_text E self) = Inr t \<longrightarrow>
      fst (analyze_file E self k) =
        Inr \<lparr>Chinese_Words =
               most_common k (word_frequency
                 (filter (fullmatch_plus chinese_char)
                   (jieba_extract_tags E
                     (join [32] (filter (\<lambda>x. 1 < length x \<and> x \<notin> stopwords self)
                        (jieba_cut E t))) 1000))),
             Numbers = most_common k (word_frequency (findall (number_pattern E) t)),
             Special_Characters =
               most_common k (word_frequency (findall (special_char_pattern E) t))\<rparr>) \<and>
   count_given_word_frequency E (self\<lparr>stopwords := S\<rparr>) w =
     count_given_word_frequency E self w"
proof (intro conjI impI)
  show "remove_stopwords self ws = filter (\<lambda>x. 1 < length x \<and> x \<notin> stopwords self) ws"
    by (rule remove_stopwords_filter)
  show k: "keyword_tokens E self t =
     jieba_extract_tags E
       (join [32] (filter (\<lambda>x. 1 < length x \<and> x \<notin> stopwords self) (jieba_cut E t))) 1000"
    by (simp add: keyword_tokens_def remove_stopwords_filter)
  show "count_given_word_frequency E (self\<lparr>stopwords := S\<rparr>) w =
     count_given_word_frequency E self w"
    by (rule count_given_word_frequency_stopwords)
  assume "fst (load_text E self) = Inr t"
  from analyze_file_text [OF this, of k]
  show "fst (analyze_file E self k) =
        Inr \<lparr>Chinese_Words =
               most_common k (word_frequency
                 (filter (fullmatch_plus chinese_char)
                   (jieba_extract_tags E
                     (join [32] (filter (\<lambda>x. 1 < length x \<and> x \<notin> stopwords self)
                        (jieba_cut E t))) 1000))),
             Numbers = most_common k (word_frequency (findall (number_pattern E) t)),
             Special_Characters =
               most_common k (word_frequency (findall (special_char_pattern E) t))\<rparr>"
    by (simp add: chinese_list_def numbers_list_def special_characters_list_def k)
qed

theorem stopword_filter_witness:
  "fst (load_text sample_env (sample_analyzer ''apples.docx'')) = Inr apples_text \<and>
   fst (analyze_file sample_env (sample_analyzer ''apples.docx'') 5) =
     Inr \<lparr>Chinese_Words =
            most_common 5 (word_frequency
              (filter (fullmatch_plus chinese_char)
                (jieba_extract_tags sample_env
                  (join [32] (filter (\<lambda>x. 1 < length x \<and> x \<notin> stopwords (sample_analyzer ''apples.docx''))
                     (jieba_cut sample_env apples_text))) 1000))),
          Numbers = most_common 5 (word_frequency (findall (number_pattern sample_env) apples_text)),
          Special_Characters =
            most_common 5 (word_frequency (findall (special_char_pattern sample_env) apples_text))\<rparr>"
proof -
  have h: "fst (load_text sample_env (sample_analyzer ''apples.docx'')) = Inr apples_text"
    by (simp add: load_apples_docx)
  show ?thesis
    using h stopword_filter [where E = sample_env and self = "sample_analyzer ''apples.docx''"
        and t = apples_text and k = 5]
    by (simp only:)
qed

section \<open>The three lists\<close>

text \<open>
  Claim C5: in \<open>analyze_file\<close> the Chinese list holds the keywords that are, as a whole,
  one or more characters of the CJK block; the numbers are the decimal digits of the
  raw text, one character each; the special characters are the characters of the raw
  text that are neither word characters nor whitespace, one character each; the three
  lists returned are the most common entries of these three lists.
\<close>

theorem candidate_lists:
  "chinese_list E self t =
     filter (\<lambda>w. w \<noteq> [] \<and> list_all (\<lambda>c. 0x4e00 \<le> c \<and> c \<le> 0x9fff) w) (keyword_tokens E self t) \<and>
   numbers_list E t = map (\<lambda>c. [c]) (filter (uni_isdecimal E) t) \<and>
   special_characters_list E t =
     map (\<lambda>c. [c])
       (filter (\<lambda>c. \<not> (uni_isalpha E c \<or> uni_isdecimal E c \<or> uni_isdigit E c \<or>
                        uni_isnumeric E c \<or> c = 95) \<and> \<not> uni_isspace E c) t) \<and>
   (fst (load_text E self) = Inr t \<longrightarrow>
      fst (analyze_file E self k) =
        Inr \<lparr>Chinese_Words = most_common k (word_frequency (chinese_list E self t)),
             Numbers = most_common k (word_frequency (numbers_list E t)),
             Special_Characters = most_common k (word_frequency (special_characters_list E t))\<rparr>)"
proof (intro conjI impI)
  have "fullmatch_plus chinese_char = (\<lambda>w. w \<noteq> [] \<and> list_all (\<lambda>c. 0x4e00 \<le> c \<and> c \<le> 0x9fff) w)"
    by (rule ext) (simp add: fullmatch_plus_iff chinese_char_def [abs_def])
  then show "chinese_list E self t =
     filter (\<lambda>w. w \<noteq> [] \<and> list_all (\<lambda>c. 0x4e00 \<le> c \<and> c \<le> 0x9fff) w) (keyword_tokens E self t)"
    by (simp add: chinese_list_def)
  show "numbers_list E t = map (\<lambda>c. [c]) (filter (uni_isdecimal E) t)"
    by (simp add: numbers_list_def findall_eq number_pattern_def [abs_def] re_digit_def [abs_def])
  show "special_characters_list E t =
     map (\<lambda>c. [c])
       (filter (\<lambda>c. \<not> (uni_isalpha E c \<or> uni_isdecimal E c \<or> uni_isdigit E c \<or>
                        uni_isnumeric E c \<or> c = 95) \<and> \<not> uni_isspace E c) t)"
    by (simp add: special_characters_list_def findall_eq special_char_pattern_def [abs_def]
        re_word_def re_space_def)
  assume "fst (load_text E self) = Inr t"
  then show "fst (analyze_file E self k) =
        Inr \<lparr>Chinese_Words = most_common k (word_frequency (chinese_list E self t)),
             Numbers = most_common k (word_frequency (numbers_list E t)),
             Special_Characters = most_common k (word_frequency (special_characters_list E t))\<rparr>"
    by (rule analyze_file_text)
qed

theorem candidate_lists_witness:
  "fst (load_text sample_env (sample_analyzer ''apples.docx'')) = Inr apples_text \<and>
   numbers_list sample_env apples_text = [[51], [50]] \<and>
   fst (analyze_file sample_env (sample_analyzer ''apples.docx'') 5) =
     Inr \<lparr>Chinese_Words = most_common 5 (word_frequency [hello]),
          Numbers = most_common 5 (word_frequency [[51], [50]]),
          Special_Characters = most_common 5 (word_frequency [[44], [33], [0xff0c], [0x3002]])\<rparr>"
proof -
  have h: "fst (load_text sample_env (sample_analyzer ''apples.docx'')) = Inr apples_text"
    by (simp add: load_apples_docx)
  show ?thesis
    using h candidate_lists [where E = sample_env and self = "sample_analyzer ''apples.docx''"
        and t = apples_text and k = 5]
    unfolding apples_lists by (simp only:)
qed

section \<open>The top-K view\<close>

text \<open>
  Claim C6: for every list and every \<open>k\<close>, the most common \<open>k\<close> entries of the tally of
  the list are at most \<open>k\<close> (none when \<open>k\<close> is not positive), sorted by descending count,
  entries of equal count in the order in which their words first occur in the list; their
  words are distinct words of the list, all of them when \<open>k\<close> is at least their number; the
  empty list gives the empty list. These are the three lists of \<open>analyze_file\<close>.
\<close>

theorem top_k_view:
  "(0 \<le> k \<longrightarrow> int (length (most_common k (word_frequency ws))) \<le> k) \<and>
   (k \<le> 0 \<longrightarrow> most_common k (word_frequency ws) = []) \<and>
   sorted_wrt (\<lambda>p q. snd p > snd q \<or>
                 (snd p = snd q \<and> first_seen ws (fst p) < first_seen ws (fst q)))
     (most_common k (word_frequency ws)) \<and>
   distinct (map fst (most_common k (word_frequency ws))) \<and>
   fst ` set (most_common k (word_frequency ws)) \<subseteq> set ws \<and>
   (int (card (set ws)) \<le> k \<longrightarrow> fst ` set (most_common k (word_frequency ws)) = set ws) \<and>
   (ws = [] \<longrightarrow> most_common k (word_frequency ws) = [])"
proof (intro conjI impI)
  assume "0 \<le> k"
  then show "int (length (most_common k (word_frequency ws))) \<le> k"
    by (simp add: most_common_def)
next
  assume "k \<le> 0"
  then show "most_common k (word_frequency ws) = []" by (simp add: most_common_def)
next
  show "sorted_wrt (\<lambda>p q. snd p > snd q \<or>
                 (snd p = snd q \<and> first_seen ws (fst p) < first_seen ws (fst q)))
     (most_common k (word_frequency ws))"
    by (rule most_common_order)
next
  show "distinct (map fst (most_common k (word_frequency ws)))" by (rule most_common_distinct)
next
  show "fst ` set (most_common k (word_frequency ws)) \<subseteq> set ws"
  proof
    fix w assume "w \<in> fst ` set (most_common k (word_frequency ws))"
    then obtain n where "(w, n) \<in> set (most_common k (word_frequency ws))" by auto
    then show "w \<in> set ws" using most_common_entry [of w n k ws] by simp
  qed
next
  assume "int (card (set ws)) \<le> k"
  then show "fst ` set (most_common k (word_frequency ws)) = set ws" by (rule most_common_all)
next
  assume "ws = []"
  then show "most_common k (word_frequency ws) = []"
    by (simp add: most_common_def word_frequency_def Counter_def)
qed

theorem top_k_view_witness:
  "(0 :: int) \<le> 2 \<and>
   most_common 2 (word_frequency [3 :: nat, 1, 1, 2, 3, 5]) = [(3, 2), (1, 2)] \<and>
   int (length [(3 :: nat, 2 :: int), (1, 2)]) \<le> 2 \<and>
   sorted_wrt (\<lambda>p q. snd p > snd q \<or>
                 (snd p = snd q \<and> first_seen [3 :: nat, 1, 1, 2, 3, 5] (fst p)
                                    < first_seen [3, 1, 1, 2, 3, 5] (fst q)))
     [(3 :: nat, 2 :: int), (1, 2)] \<and>
   (-1 :: int) \<le> 0 \<and> most_common (-1) (word_frequency [3 :: nat, 1, 1, 2, 3, 5]) = [] \<and>
   int (card (set [7 :: nat, 7])) \<le> 2 \<and>
   fst ` set (most_common 2 (word_frequency [7 :: nat, 7])) = set [7, 7] \<and>
   most_common 2 (word_frequency ([] :: nat list)) = []"
proof -
  have c: "int (card (set [7 :: nat, 7])) \<le> 2" by simp
  show ?thesis
    using c top_k_view [where k = 2 and ws = "[3 :: nat, 1, 1, 2, 3, 5]"]
      top_k_view [where k = "-1" and ws = "[3 :: nat, 1, 1, 2, 3, 5]"]
      top_k_view [where k = 2 and ws = "[7 :: nat, 7]"]
      top_k_view [where k = 2 and ws = "[] :: nat list"]
    unfolding top_two_sample by simp
qed

section \<open>Running the analysis again\<close>

text \<open>
  Claim C7: two runs of the analysis on the same extracted text, with the same stopwords
  and the same \<open>k\<close>, return the same three lists (whatever the analyzers' paths and
  whatever the runs log); the segmenter and the keyword extractor are functions of their
  input.
\<close>

theorem analysis_deterministic:
  "fst (load_text E self) = Inr t \<Longrightarrow> fst (load_text E self') = Inr t \<Longrightarrow>
   stopwords self' = stopwords self \<Longrightarrow>
   fst (analyze_file E self' k) = fst (analyze_file E self k)"
proof -
  assume a: "fst (load_text E self) = Inr t" and b: "fst (load_text E self') = Inr t"
    and c: "stopwords self' = stopwords self"
  have "chinese_list E self' t = chinese_list E self t" using c by (rule chinese_list_stopwords)
  then show ?thesis
    unfolding analyze_file_text [OF a] analyze_file_text [OF b] by (simp only:)
qed

theorem analysis_deterministic_witness:
  "fst (load_text sample_env (sample_analyzer ''doc.pdf'')) = Inr hello_world_text \<and>
   fst (load_text sample_env (sample_analyzer ''doc.docx'')) = Inr hello_world_text \<and>
   stopwords (sample_analyzer ''doc.docx'') = stopwords (sample_analyzer ''doc.pdf'') \<and>
   fst (analyze_file sample_env (sample_analyzer ''doc.docx'') 10) =
     fst (analyze_file sample_env (sample_analyzer ''doc.pdf'') 10)"
proof -
  have a: "fst (load_text sample_env (sample_analyzer ''doc.pdf'')) = Inr hello_world_text"
    by (simp add: load_doc_pdf)
  have b: "fst (load_text sample_env (sample_analyzer ''doc.docx'')) = Inr hello_world_text"
    by (simp add: load_doc_docx)
  have c: "stopwords (sample_analyzer ''doc.docx'') = stopwords (sample_analyzer ''doc.pdf'')"
    by (simp add: sample_analyzer_def)
  from a b c analysis_deterministic [OF a b c, of 10] show ?thesis by (intro conjI)
qed

section \<open>Open documents\<close>

text \<open>
  Claim C8: extraction, of a PDF as of a DOCX, releases the document it opened before the
  call returns, on every exit path, errors included (scoped acquisition with guaranteed
  release).

  \<open>_extract_text_from_pdf\<close> has no scoped block and no \<open>close\<close>: on the sample PDF whose
  second page cannot be loaded, the call ends with the error and the document open.
\<close>

theorem extraction_leaves_document_open_counterexample:
  "fst (extract_text_from_pdf sample_env (sample_analyzer ''broken.pdf'')) = Inl LibraryError \<and>
   open_documents (snd (extract_text_from_pdf sample_env (sample_analyzer ''broken.pdf''))) [] =
     [ustr ''broken.pdf''] \<and>
   open_documents (snd (extract_text_from_pdf sample_env (sample_analyzer ''broken.pdf''))) [] \<noteq> []"
  by (simp add: extract_broken_pdf)

text \<open>
  Claim C8, amended: when \<open>_extract_text_from_pdf\<close> returns the text, the document it
  opened has been released (by the runtime, at the end of the call, not by a scoped
  block), and when \<open>fitz.open\<close> itself raises there is nothing to release; when loading
  or reading a page raises, the call ends with the document still open.
  \<open>_extract_text_from_docx\<close> makes the one call \<open>Document(path)\<close> and holds no open
  document of its own.
\<close>

theorem pdf_document_release:
  "(fst (extract_text_from_pdf E self) = Inr t \<longrightarrow>
      open_documents (snd (extract_text_from_pdf E self)) [] = []) \<and>
   (fitz_open E (file_path self) = None \<longrightarrow>
      open_documents (snd (extract_text_from_pdf E self)) [] = []) \<and>
   (fitz_open E (file_path self) = Some doc \<and> fst (extract_text_from_pdf E self) = Inl e \<longrightarrow>
      open_documents (snd (extract_text_from_pdf E self)) [] = [file_path self]) \<and>
   snd (extract_text_from_docx E self) = [DocxDocument (file_path self)]"
proof -
  have pages: "open_documents tr [] = [file_path self]"
    if "pdf_pages d 0 [] [FitzOpen (file_path self)] = (r, tr)" for d r tr
  proof -
    obtain tr' where t: "snd (pdf_pages d 0 [] [FitzOpen (file_path self)]) =
        [FitzOpen (file_path self)] @ tr'"
      and l: "list_all (\<lambda>e. (\<exists>i. e = LoadPage i) \<or> (\<exists>i. e = GetText i)) tr'"
      using pdf_pages_events [of d 0 "[]" "[FitzOpen (file_path self)]"] by auto
    have "tr = [FitzOpen (file_path self)] @ tr'" using t that by simp
    then show ?thesis using open_documents_pages [OF l, of "[file_path self]"] by simp
  qed
  note c = extract_text_from_pdf_cases [of E self]
  have 1: "open_documents (snd (extract_text_from_pdf E self)) [] = []"
    if "fst (extract_text_from_pdf E self) = Inr t"
    using c that
  proof (elim disjE exE conjE)
    fix d t' tr
    assume p: "pdf_pages d 0 [] [FitzOpen (file_path self)] = (Inr t', tr)"
      and x: "extract_text_from_pdf E self = (Inr t', tr @ [Release (file_path self)])"
    have "open_documents tr [] = [file_path self]" using p by (rule pages)
    then show ?thesis unfolding x by (simp add: open_documents_append)
  qed simp_all
  have 2: "open_documents (snd (extract_text_from_pdf E self)) [] = []"
    if "fitz_open E (file_path self) = None"
    using that by (simp add: extract_text_from_pdf_def)
  have 3: "open_documents (snd (extract_text_from_pdf E self)) [] = [file_path self]"
    if "fitz_open E (file_path self) = Some doc" "fst (extract_text_from_pdf E self) = Inl e"
    using c that
  proof (elim disjE exE conjE)
    fix d e' tr
    assume p: "pdf_pages d 0 [] [FitzOpen (file_path self)] = (Inl e', tr)"
      and x: "extract_text_from_pdf E self = (Inl e', tr)"
    have "open_documents tr [] = [file_path self]" using p by (rule pages)
    then show ?thesis unfolding x by simp
  qed simp_all
  have 4: "snd (extract_text_from_docx E self) = [DocxDocument (file_path self)]"
    by (simp add: extract_text_from_docx_def split: option.splits)
  show ?thesis using 1 2 3 4 by (intro conjI impI) simp_all
qed

theorem pdf_document_release_witness:
  "fst (extract_text_from_pdf sample_env (sample_analyzer ''doc.pdf'')) = Inr hello_world_text \<and>
   open_documents (snd (extract_text_from_pdf sample_env (sample_analyzer ''doc.pdf''))) [] = [] \<and>
   fitz_open sample_env (file_path (sample_analyzer ''missing.pdf'')) = None \<and>
   open_documents (snd (extract_text_from_pdf sample_env (sample_analyzer ''missing.pdf''))) [] = [] \<and>
   fitz_open sample_env (file_path (sample_analyzer ''broken.pdf'')) =
     Some [Page hello_world_text, LoadPageError] \<and>
   fst (extract_text_from_pdf sample_env (sample_analyzer ''broken.pdf'')) = Inl LibraryError \<and>
   open_documents (snd (extract_text_from_pdf sample_env (sample_analyzer ''broken.pdf''))) [] =
     [file_path (sample_analyzer ''broken.pdf'')]"
proof -
  have a: "fst (extract_text_from_pdf sample_env (sample_analyzer ''doc.pdf'')) =
      Inr hello_world_text"
    by (simp add: extract_doc_pdf)
  have b: "fitz_open sample_env (file_path (sample_analyzer ''missing.pdf'')) = None"
    by (simp add: sample_env_def sample_fitz_open_def sample_analyzer_def ustr_def)
  have c: "fitz_open sample_env (file_path (sample_analyzer ''broken.pdf'')) =
      Some [Page hello_world_text, LoadPageError]"
    by (simp add: sample_env_def sample_fitz_open_def sample_analyzer_def ustr_def)
  have d: "fst (extract_text_from_pdf sample_env (sample_analyzer ''broken.pdf'')) =
      Inl LibraryError"
    by (simp add: extract_broken_pdf)
  from a b c d
    pdf_document_release [where E = sample_env and self = "sample_analyzer ''doc.pdf''"
      and t = hello_world_text]
    pdf_document_release [where E = sample_env and self = "sample_analyzer ''missing.pdf''"]
    pdf_document_release [where E = sample_env and self = "sample_analyzer ''broken.pdf''"
      and doc = "[Page hello_world_text, LoadPageError]" and e = LibraryError]
  show ?thesis by (simp only:)
qed

section \<open>The entries of the three lists\<close>

text \<open>
  Claim C9: every entry \<open>(token, count)\<close> of each of the three lists that \<open>analyze_file\<close>
  returns has a positive count, which is the number of occurrences of the token in the
  list that was counted (the Chinese list, the numbers, the special characters); the token
  occurs in that list.
\<close>

theorem top_counts:
  "fst (load_text E self) = Inr t \<Longrightarrow> fst (analyze_file E self k) = Inr r \<Longrightarrow>
   (\<forall>(w, n) \<in> set (Chinese_Words r).
      0 < n \<and> n = int (count_list (chinese_list E self t) w) \<and> w \<in> set (chinese_list E self t)) \<and>
   (\<forall>(w, n) \<in> set (Numbers r).
      0 < n \<and> n = int (count_list (numbers_list E t) w) \<and> w \<in> set (numbers_list E t)) \<and>
   (\<forall>(w, n) \<in> set (Special_Characters r).
      0 < n \<and> n = int (count_list (special_characters_list E t) w) \<and>
      w \<in> set (special_characters_list E t))"
proof -
  assume l: "fst (load_text E self) = Inr t" and a: "fst (analyze_file E self k) = Inr r"
  have r: "r = \<lparr>Chinese_Words = most_common k (word_frequency (chinese_list E self t)),
            Numbers = most_common k (word_frequency (numbers_list E t)),
            Special_Characters = most_common k (word_frequency (special_characters_list E t))\<rparr>"
    using analyze_file_text [OF l, of k] a by simp
  show ?thesis unfolding r using most_common_entry by fastforce
qed

theorem top_counts_witness:
  "fst (load_text sample_env (sample_analyzer ''apples.docx'')) = Inr apples_text \<and>
   fst (analyze_file sample_env (sample_analyzer ''apples.docx'') 5) =
     Inr \<lparr>Chinese_Words = [(hello, 1)],
          Numbers = [([51], 1), ([50], 1)],
          Special_Characters = [([44], 1), ([33], 1), ([0xff0c], 1), ([0x3002], 1)]\<rparr> \<and>
   (0 :: int) < 1 \<and> (1 :: int) = int (count_list [[51 :: nat], [50]] [51]) \<and>
   [51 :: nat] \<in> set [[51], [50]]"
proof -
  have l: "fst (load_text sample_env (sample_analyzer ''apples.docx'')) = Inr apples_text"
    by (simp add: load_apples_docx)
  from top_counts [OF l analyze_apples] l analyze_apples show ?thesis
    unfolding apples_lists by simp
qed

text \<open>
  Claim C10: in the result of \<open>analyze_file\<close> every token of \<open>Numbers\<close> is a single
  decimal digit and every token of \<open>Special Characters\<close> is a single character that is
  neither a word character nor whitespace; no token is in both lists.
\<close>

theorem numbers_and_specials:
  "fst (analyze_file E self k) = Inr r \<Longrightarrow>
   (\<forall>(w, n) \<in> set (Numbers r). \<exists>c. w = [c] \<and> uni_isdecimal E c) \<and>
   (\<forall>(w, n) \<in> set (Special_Characters r).
      \<exists>c. w = [c] \<and> \<not> re_word E c \<and> \<not> uni_isspace E c) \<and>
   fst ` set (Numbers r) \<inter> fst ` set (Special_Characters r) = {}"
proof -
  assume a: "fst (analyze_file E self k) = Inr r"
  then obtain t where l: "fst (load_text E self) = Inr t" using analyze_file_Inr by blast
  have n: "Numbers r = most_common k (word_frequency (findall (number_pattern E) t))"
    and s: "Special_Characters r = most_common k (word_frequency (findall (special_char_pattern E) t))"
    using analyze_file_text [OF l, of k] a
    by (simp_all add: numbers_list_def special_characters_list_def)
  have 1: "\<exists>c. w = [c] \<and> uni_isdecimal E c" if "(w, m) \<in> set (Numbers r)" for w m
    using findall_entry [of w m k "number_pattern E" t] that
    unfolding n by (simp add: number_pattern_def re_digit_def)
  have 2: "\<exists>c. w = [c] \<and> \<not> re_word E c \<and> \<not> uni_isspace E c"
    if "(w, m) \<in> set (Special_Characters r)" for w m
    using findall_entry [of w m k "special_char_pattern E" t] that
    unfolding s by (simp add: special_char_pattern_def re_space_def)
  have 3: "fst ` set (Numbers r) \<inter> fst ` set (Special_Characters r) = {}"
  proof (rule ccontr)
    assume "fst ` set (Numbers r) \<inter> fst ` set (Special_Characters r) \<noteq> {}"
    then obtain w m m' where "(w, m) \<in> set (Numbers r)" "(w, m') \<in> set (Special_Characters r)"
      by auto
    then obtain c c' where "w = [c]" "uni_isdecimal E c" "w = [c']" "\<not> re_word E c'"
      using 1 2 by metis
    then show False by (simp add: re_word_def)
  qed
  show ?thesis using 1 2 3 by auto
qed

theorem numbers_and_specials_witness:
  "fst (analyze_file sample_env (sample_analyzer ''apples.docx'') 5) =
     Inr \<lparr>Chinese_Words = [(hello, 1)],
          Numbers = [([51], 1), ([50], 1)],
          Special_Characters = [([44], 1), ([33], 1), ([0xff0c], 1), ([0x3002], 1)]\<rparr> \<and>
   uni_isdecimal sample_env 51 \<and> uni_isdecimal sample_env 50 \<and>
   fst ` set [([51 :: nat], 1 :: int), ([50], 1)] \<inter>
     fst ` set [([44], 1 :: int), ([33], 1), ([0xff0c], 1), ([0x3002], 1)] = {}"
proof -
  from numbers_and_specials [OF analyze_apples] analyze_apples show ?thesis by simp
qed

end
